theory Spec2Isabelle
  imports Main
begin

section \<open>Strings of the Python library\<close>

text \<open>
  A Python \<open>str\<close> is modelled as a \<open>string\<close> whose characters are the code points
  below 256. The functions of this section are the library functions that
  \<open>ingesta.py\<close> calls on strings, restricted to that range.
\<close>

definition py_isspace :: "char \<Rightarrow> bool" where
  \<comment> \<open>the code points below 256 that \<open>str.isspace\<close> accepts\<close>
  "py_isspace c =
     (let n = (of_char c :: nat)
      in (9 \<le> n \<and> n \<le> 13) \<or> (28 \<le> n \<and> n \<le> 32) \<or> n = 133 \<or> n = 160)"

definition strip :: "string \<Rightarrow> string" where
  \<comment> \<open>\<open>s.strip()\<close>\<close>
  "strip s = rev (dropWhile py_isspace (rev (dropWhile py_isspace s)))"

definition rstrip :: "string \<Rightarrow> string \<Rightarrow> string" where
  \<comment> \<open>\<open>s.rstrip(chars)\<close>\<close>
  "rstrip chars s = rev (dropWhile (\<lambda>c. List.member chars c) (rev s))"

fun split :: "char \<Rightarrow> string \<Rightarrow> string list" where
  \<comment> \<open>\<open>s.split(sep)\<close> for a separator of one character\<close>
  "split sep [] = [[]]"
| "split sep (c # cs) =
     (if c = sep then [] # split sep cs
      else (case split sep cs of [] \<Rightarrow> [[c]] | w # ws \<Rightarrow> (c # w) # ws))"

definition upper_char :: "char \<Rightarrow> char" where
  "upper_char c =
     (case map_of (zip ''abcdefghijklmnopqrstuvwxyz'' ''ABCDEFGHIJKLMNOPQRSTUVWXYZ'') c
      of Some u \<Rightarrow> u | None \<Rightarrow> c)"

definition upper :: "string \<Rightarrow> string" where
  \<comment> \<open>\<open>s.upper()\<close> on the letters \<open>a\<close> to \<open>z\<close>. Python also maps letters beyond
      ASCII, which are kept here; no key of the quoting table contains one.\<close>
  "upper s = map upper_char s"

definition basename :: "string \<Rightarrow> string" where
  \<comment> \<open>\<open>os.path.basename\<close>: what follows the last slash\<close>
  "basename p = rev (takeWhile (\<lambda>c. c \<noteq> CHR ''/'') (rev p))"

definition path_join :: "string \<Rightarrow> string \<Rightarrow> string" where
  \<comment> \<open>\<open>os.path.join\<close> of two components\<close>
  "path_join a b =
     (if b \<noteq> [] \<and> hd b = CHR ''/'' then b
      else if a = [] \<or> last a = CHR ''/'' then a @ b
      else a @ ''/'' @ b)"

definition getenv :: "(string \<rightharpoonup> string) \<Rightarrow> string \<Rightarrow> string \<Rightarrow> string" where
  \<comment> \<open>\<open>os.getenv(key, default)\<close>\<close>
  "getenv env key dflt = (case env key of None \<Rightarrow> dflt | Some v \<Rightarrow> v)"

section \<open>Configuration\<close>

text \<open>
  The module-level constants of \<open>ingesta.py\<close>, read once from the environment.
  The chunk size and the run timestamp are taken as already computed values;
  host, port and region only reach the constructors of the engine and of the
  client, which are represented by the collaborators of the next sections.
\<close>

record config =
  PG_DB :: string
  PG_USER :: string
  PG_PASSWORD :: string
  PG_SCHEMA :: string
  TABLES :: "string list"
  CSV_SEP :: string
  CSV_QUOTE :: string
  CSV_LINE_TERMINATOR :: string
  CHUNKSIZE :: nat
  OUTPUT_DIR :: string
  S3_BUCKET :: string
  S3_PREFIX :: string
  TIMESTAMP :: string

definition parse_tables :: "string \<Rightarrow> string list" where
  \<comment> \<open>\<open>[t.strip() for t in TABLES_ENV.split(",") if t.strip()]\<close>\<close>
  "parse_tables tables_env =
     map strip (filter (\<lambda>t. strip t \<noteq> []) (split CHR '','' tables_env))"

definition load_config :: "(string \<rightharpoonup> string) \<Rightarrow> nat \<Rightarrow> string \<Rightarrow> config" where
  "load_config env chunksize timestamp =
     \<lparr> PG_DB = getenv env ''PG_DB'' '''',
       PG_USER = getenv env ''PG_USER'' '''',
       PG_PASSWORD = getenv env ''PG_PASSWORD'' '''',
       PG_SCHEMA = getenv env ''PG_SCHEMA'' ''public'',
       TABLES = parse_tables (getenv env ''TABLES'' ''''),
       CSV_SEP = getenv env ''CSV_SEP'' '','',
       CSV_QUOTE = upper (getenv env ''CSV_QUOTE'' ''MINIMAL''),
       CSV_LINE_TERMINATOR = getenv env ''CSV_LINE_TERMINATOR'' [CHR 0x0A],
       CHUNKSIZE = chunksize,
       OUTPUT_DIR = getenv env ''OUTPUT_DIR'' ''/app/out'',
       S3_BUCKET = getenv env ''S3_BUCKET'' '''',
       S3_PREFIX = getenv env ''S3_PREFIX'' '''',
       TIMESTAMP = timestamp \<rparr>"

section \<open>Quoting mode\<close>

datatype quoting = QUOTE_MINIMAL | QUOTE_ALL | QUOTE_NONNUMERIC | QUOTE_NONE

definition csv_quote_const :: "string \<Rightarrow> quoting" where
  "csv_quote_const name =
     (case map_of [(''MINIMAL'', QUOTE_MINIMAL),
                   (''ALL'', QUOTE_ALL),
                   (''NONNUMERIC'', QUOTE_NONNUMERIC),
                   (''NONE'', QUOTE_NONE)] name
      of Some q \<Rightarrow> q | None \<Rightarrow> QUOTE_MINIMAL)"

section \<open>Identifier guard\<close>

datatype error =
    ValueError string
  | DatabaseError
  | NoCredentialsError
  | PartialCredentialsError
  | ClientError
  | OtherError

definition ident_char :: "char \<Rightarrow> bool" where
  \<comment> \<open>the character class \<open>[A-Za-z0-9_]\<close>\<close>
  "ident_char c =
     (let n = (of_char c :: nat)
      in (65 \<le> n \<and> n \<le> 90) \<or> (97 \<le> n \<and> n \<le> 122) \<or> (48 \<le> n \<and> n \<le> 57) \<or> n = 95)"

definition at_dollar :: "string \<Rightarrow> bool" where
  \<comment> \<open>\<open>$\<close> without \<open>re.MULTILINE\<close>: at the end of the string, or just before a
      newline that is the last character\<close>
  "at_dollar rest = (rest = [] \<or> rest = [CHR 0x0A])"

definition VALID_IDENT_match :: "string \<Rightarrow> bool" where
  \<comment> \<open>\<open>VALID_IDENT.match(name)\<close> for \<open>^[A-Za-z0-9_]+$\<close>: the greedy \<open>+\<close> takes the
      longest run of class characters and gives characters back, down to one,
      until \<open>$\<close> matches\<close>
  "VALID_IDENT_match name =
     (let k = length (takeWhile ident_char name)
      in list_ex (\<lambda>n. at_dollar (drop n name)) (rev [1..<Suc k]))"

definition safe_ident :: "string \<Rightarrow> error + string" where
  "safe_ident name =
     (if \<not> VALID_IDENT_match name then Inl (ValueError name) else Inr name)"

definition spec_valid_ident :: "string \<Rightarrow> bool" where
  \<comment> \<open>the specification's reading of the pattern: non-empty, ASCII letters,
      digits and underscore only\<close>
  "spec_valid_ident name = (name \<noteq> [] \<and> list_all ident_char name)"

section \<open>Effects and collaborators\<close>

text \<open>
  Everything the program does to the outside is an entry of one trace, in
  program order; the local files are kept beside it. Console lines are recorded
  by kind and arguments, not as formatted text.
\<close>

datatype message =
    MsgExported string string nat
  | MsgSkipped string string string
  | MsgUploaded string string
  | MsgDone
  | MsgMissingEnv
  | MsgMissingBucket
  | MsgNothingExported
  | MsgNoCredentials
  | MsgUploadFailed

datatype event =
    Makedirs string
  | Execute string "(string \<times> string) list"
  | ReadSql string nat
  | ToCsv string bool string quoting string
  | UploadFile string string string
  | Stdout message
  | Stderr message

datatype csv_line = Header "string list" | Data "string list"

record frame =
  columns :: "string list"
  rows :: "string list list"

record state =
  files :: "string \<rightharpoonup> csv_line list"
  trace :: "event list"

datatype 'a reply = Fails | Gives 'a

text \<open>
  The database and the object store are parameters of the run: what a scalar
  query with its bound parameters returns, what rows a query text selects, and
  whether an upload raises. A reply \<open>Fails\<close> stands for any error of the driver.
\<close>

record world =
  scalar :: "string \<Rightarrow> (string \<times> string) list \<Rightarrow> int option reply"
  result_set :: "string \<Rightarrow> frame reply"
  upload_file :: "string \<Rightarrow> string \<Rightarrow> string \<Rightarrow> error option"

definition emit :: "event \<Rightarrow> state \<Rightarrow> state" where
  "emit e st = st\<lparr>trace := trace st @ [e]\<rparr>"

definition ensure_output_dir :: "string \<Rightarrow> state \<Rightarrow> state" where
  "ensure_output_dir path st = emit (Makedirs path) st"

section \<open>Existence check\<close>

definition catalog_query :: string where
  "catalog_query =
     ''SELECT COUNT(*) AS c FROM information_schema.tables '' @
     ''WHERE table_schema = :schema AND table_name = :tbl''"

definition or_zero :: "int option \<Rightarrow> int" where
  \<comment> \<open>\<open>r or 0\<close>\<close>
  "or_zero r = (case r of None \<Rightarrow> 0 | Some n \<Rightarrow> if n = 0 then 0 else n)"

definition table_exists :: "config \<Rightarrow> world \<Rightarrow> string \<Rightarrow> state \<Rightarrow> (error + bool) \<times> state" where
  "table_exists cfg w table_name st =
     (let params = [(''schema'', PG_SCHEMA cfg), (''tbl'', table_name)];
          st1 = emit (Execute catalog_query params) st
      in case scalar w catalog_query params of
           Fails \<Rightarrow> (Inl DatabaseError, st1)
         | Gives r \<Rightarrow> (Inr (0 < or_zero r), st1))"

section \<open>Chunked export\<close>

function chunks_of :: "nat \<Rightarrow> 'a list \<Rightarrow> 'a list list" where
  "chunks_of n xs =
     (if n = 0 \<or> xs = [] then [] else take n xs # chunks_of n (drop n xs))"
  by pat_completeness auto
termination
  by (relation "measure (\<lambda>(n, xs). length xs)") auto

declare chunks_of.simps [simp del]

definition chunked :: "nat \<Rightarrow> frame \<Rightarrow> frame list" where
  \<comment> \<open>the frames that the iterator of \<open>pandas.read_sql\<close> yields for a result (library
      code; \<open>to_csv\<close> is called with \<open>lineterminator\<close>, which needs pandas 1.5 or later):
      the rows in sequential chunks of at most the chunk size; one frame of all
      rows for the chunk size 0; and one frame without rows, which still carries
      the columns, for a result without rows\<close>
  "chunked chunksize f =
     map (\<lambda>rs. \<lparr>columns = columns f, rows = rs\<rparr>)
       (if rows f = [] then [[]]
        else if chunksize = 0 then [rows f]
        else chunks_of chunksize (rows f))"

definition read_sql :: "world \<Rightarrow> string \<Rightarrow> nat \<Rightarrow> state \<Rightarrow> (error + frame list) \<times> state" where
  \<comment> \<open>\<open>pd.read_sql(query, engine, chunksize=CHUNKSIZE)\<close>\<close>
  "read_sql w query chunksize st =
     (let st1 = emit (ReadSql query chunksize) st
      in case result_set w query of
           Fails \<Rightarrow> (Inl DatabaseError, st1)
         | Gives f \<Rightarrow> (Inr (chunked chunksize f), st1))"

definition file_lines :: "state \<Rightarrow> string \<Rightarrow> csv_line list" where
  \<comment> \<open>the lines of a file; a file that does not exist has none\<close>
  "file_lines st path = (case files st path of None \<Rightarrow> [] | Some ls \<Rightarrow> ls)"

definition to_csv ::
  "frame \<Rightarrow> string \<Rightarrow> bool \<Rightarrow> string \<Rightarrow> quoting \<Rightarrow> string \<Rightarrow> state \<Rightarrow> state" where
  \<comment> \<open>\<open>chunk.to_csv(path, mode="a", index=False, ...)\<close>: the file is created when
      absent and never truncated\<close>
  "to_csv chunk path header sep quote lineterminator st =
     (let old = file_lines st path;
          new = (if header then [Header (columns chunk)] else []) @ map Data (rows chunk)
      in emit (ToCsv path header sep quote lineterminator)
           (st\<lparr>files := (files st)(path \<mapsto> old @ new)\<rparr>))"

fun export_chunks ::
  "config \<Rightarrow> string \<Rightarrow> quoting \<Rightarrow> frame list \<Rightarrow> bool \<times> nat \<times> state \<Rightarrow> bool \<times> nat \<times> state" where
  \<comment> \<open>the \<open>for chunk in ...\<close> loop on \<open>(header_written, row_count, state)\<close>\<close>
  "export_chunks cfg out_path quote [] acc = acc"
| "export_chunks cfg out_path quote (chunk # chunks) (header_written, row_count, st) =
     export_chunks cfg out_path quote chunks
       (True, row_count + length (rows chunk),
        to_csv chunk out_path (\<not> header_written) (CSV_SEP cfg) quote
          (CSV_LINE_TERMINATOR cfg) st)"

definition select_all :: "string \<Rightarrow> string \<Rightarrow> string" where
  \<comment> \<open>\<open>f'SELECT * FROM "{schema}"."{table}"'\<close>\<close>
  "select_all schema table =
     ''SELECT * FROM '' @ [CHR 0x22] @ schema @ [CHR 0x22] @ ''.'' @
     [CHR 0x22] @ table @ [CHR 0x22]"

definition export_table_to_csv ::
  "config \<Rightarrow> world \<Rightarrow> string \<Rightarrow> string \<Rightarrow> state \<Rightarrow> (error + string) \<times> state" where
  "export_table_to_csv cfg w table_name out_dir st =
     (case safe_ident table_name of
        Inl e \<Rightarrow> (Inl e, st)
      | Inr table \<Rightarrow>
     (case safe_ident (PG_SCHEMA cfg) of
        Inl e \<Rightarrow> (Inl e, st)
      | Inr schema \<Rightarrow>
     (let filename = table @ ''_'' @ TIMESTAMP cfg @ ''.csv'';
          out_path = path_join out_dir filename;
          quote = csv_quote_const (CSV_QUOTE cfg);
          query = select_all schema table
      in case read_sql w query (CHUNKSIZE cfg) st of
           (Inl e, st1) \<Rightarrow> (Inl e, st1)
         | (Inr chunks, st1) \<Rightarrow>
             (case export_chunks cfg out_path quote chunks (False, 0, st1) of
                (header_written, row_count, st2) \<Rightarrow>
                  (Inr out_path, emit (Stdout (MsgExported table out_path row_count)) st2)))))"

section \<open>Upload\<close>

definition upload_to_s3 ::
  "world \<Rightarrow> string \<Rightarrow> string \<Rightarrow> string option \<Rightarrow> state \<Rightarrow> (error + string) \<times> state" where
  \<comment> \<open>\<open>None\<close> and the empty string are both false in \<open>if prefix\<close>; the credential
      and client errors are reported and raised again, any other error passes\<close>
  "upload_to_s3 w local_path bucket prefix st =
     (let key = basename local_path;
          key = (case prefix of
                   None \<Rightarrow> key
                 | Some p \<Rightarrow> if p = [] then key else rstrip ''/'' p @ ''/'' @ key);
          st1 = emit (UploadFile local_path bucket key) st
      in case upload_file w local_path bucket key of
           None \<Rightarrow> (Inr key, emit (Stdout (MsgUploaded bucket key)) st1)
         | Some NoCredentialsError \<Rightarrow> (Inl NoCredentialsError, emit (Stderr MsgNoCredentials) st1)
         | Some PartialCredentialsError \<Rightarrow>
             (Inl PartialCredentialsError, emit (Stderr MsgNoCredentials) st1)
         | Some ClientError \<Rightarrow> (Inl ClientError, emit (Stderr MsgUploadFailed) st1)
         | Some e \<Rightarrow> (Inl e, st1))"

section \<open>Run\<close>

datatype outcome = Returned | SysExit nat | Raised error

fun export_tables ::
  "config \<Rightarrow> world \<Rightarrow> string list \<Rightarrow> string list \<Rightarrow> state \<Rightarrow> (error + string list) \<times> state" where
  \<comment> \<open>the \<open>for tbl in TABLES\<close> loop on \<open>exported_files\<close>\<close>
  "export_tables cfg w [] exported_files st = (Inr exported_files, st)"
| "export_tables cfg w (tbl # tbls) exported_files st =
     (case table_exists cfg w tbl st of
        (Inl e, st1) \<Rightarrow> (Inl e, st1)
      | (Inr False, st1) \<Rightarrow>
          export_tables cfg w tbls exported_files
            (emit (Stdout (MsgSkipped tbl (PG_DB cfg) (PG_SCHEMA cfg))) st1)
      | (Inr True, st1) \<Rightarrow>
          (case export_table_to_csv cfg w tbl (OUTPUT_DIR cfg) st1 of
             (Inl e, st2) \<Rightarrow> (Inl e, st2)
           | (Inr path, st2) \<Rightarrow> export_tables cfg w tbls (exported_files @ [path]) st2))"

fun upload_all :: "config \<Rightarrow> world \<Rightarrow> string list \<Rightarrow> state \<Rightarrow> error option \<times> state" where
  \<comment> \<open>the \<open>for path in exported_files\<close> loop\<close>
  "upload_all cfg w [] st = (None, st)"
| "upload_all cfg w (path # paths) st =
     (case upload_to_s3 w path (S3_BUCKET cfg) (Some (S3_PREFIX cfg)) st of
        (Inl e, st1) \<Rightarrow> (Some e, st1)
      | (Inr key, st1) \<Rightarrow> upload_all cfg w paths st1)"

definition main :: "config \<Rightarrow> world \<Rightarrow> state \<Rightarrow> outcome \<times> state" where
  "main cfg w st =
     (if PG_DB cfg = [] \<or> PG_USER cfg = [] \<or> PG_PASSWORD cfg = [] \<or> TABLES cfg = []
      then (SysExit 1, emit (Stderr MsgMissingEnv) st)
      else if S3_BUCKET cfg = []
      then (SysExit 1, emit (Stderr MsgMissingBucket) st)
      else
        (case export_tables cfg w (TABLES cfg) [] (ensure_output_dir (OUTPUT_DIR cfg) st) of
           (Inl e, st1) \<Rightarrow> (Raised e, st1)
         | (Inr exported_files, st1) \<Rightarrow>
             if exported_files = []
             then (SysExit 2, emit (Stderr MsgNothingExported) st1)
             else (case upload_all cfg w exported_files st1 of
                     (Some e, st2) \<Rightarrow> (Raised e, st2)
                   | (None, st2) \<Rightarrow> (Returned, emit (Stdout MsgDone) st2))))"

definition names_listed_table :: "config \<Rightarrow> string list \<Rightarrow> event \<Rightarrow> bool" where
  \<comment> \<open>an entry of the trace that is a database call is the catalog query for a
      table of the list, or the selection of all rows of one; other entries pass\<close>
  "names_listed_table cfg tbls e =
     (case e of
        Execute q params \<Rightarrow>
          q = catalog_query \<and>
          list_ex (\<lambda>t. params = [(''schema'', PG_SCHEMA cfg), (''tbl'', t)]) tbls
      | ReadSql q n \<Rightarrow> list_ex (\<lambda>t. q = select_all (PG_SCHEMA cfg) t) tbls
      | _ \<Rightarrow> True)"

section \<open>A sample run\<close>

text \<open>
  A small environment, database and object store on which the definitions can
  be evaluated: the catalog lists the table \<open>users\<close> of five rows and nothing
  else, and every upload succeeds.
\<close>

definition sample_env :: "string \<rightharpoonup> string" where
  "sample_env =
     [''PG_DB'' \<mapsto> ''shop'', ''PG_USER'' \<mapsto> ''etl'', ''PG_PASSWORD'' \<mapsto> ''secret'',
      ''TABLES'' \<mapsto> ''users, orders'', ''OUTPUT_DIR'' \<mapsto> ''/out'',
      ''S3_BUCKET'' \<mapsto> ''lake'', ''S3_PREFIX'' \<mapsto> ''raw/'']"

definition sample_config :: config where
  "sample_config = load_config sample_env 2 ''20240101T000000Z''"

definition users_frame :: frame where
  "users_frame =
     \<lparr> columns = [''id'', ''name''],
       rows = [[''1'', ''ana''], [''2'', ''luis''], [''3'', ''eva''], [''4'', ''joel''], [''5'', ''iris'']] \<rparr>"

definition sample_world :: world where
  "sample_world =
     \<lparr> scalar = (\<lambda>q params.
         if q = catalog_query \<and> params = [(''schema'', ''public''), (''tbl'', ''users'')]
         then Gives (Some 1) else Gives (Some 0)),
       result_set = (\<lambda>q. if q = select_all ''public'' ''users'' then Gives users_frame else Fails),
       upload_file = (\<lambda>local_path bucket key. None) \<rparr>"


definition listing_world :: world where
  \<comment> \<open>as \<open>sample_world\<close>, with a catalog that lists every name asked for\<close>
  "listing_world = sample_world\<lparr> scalar := (\<lambda>q params. Gives (Some 1)) \<rparr>"

definition start :: state where
  "start = \<lparr> files = Map.empty, trace = [] \<rparr>"

section \<open>Properties of the identifier guard\<close>

lemma at_dollar_ident: "ident_char c \<Longrightarrow> \<not> at_dollar (c # cs @ rest)"
  by (cases cs; cases rest) (auto simp: at_dollar_def ident_char_def)

lemma VALID_IDENT_match_iff:
  "VALID_IDENT_match name \<longleftrightarrow>
     takeWhile ident_char name \<noteq> [] \<and> at_dollar (dropWhile ident_char name)"
proof -
  let ?w = "takeWhile ident_char name" and ?r = "dropWhile ident_char name"
  have name: "name = ?w @ ?r" by simp
  have short: "\<not> at_dollar (drop n name)" if "n < length ?w" for n
  proof -
    have d: "drop n name = drop n ?w @ ?r"
      using that by (metis drop_append name diff_is_0_eq drop0 less_imp_le)
    from that obtain c cs where cs: "drop n ?w = c # cs"
      by (cases "drop n ?w") auto
    then have "c \<in> set ?w" by (metis in_set_dropD list.set_intros(1))
    then have "ident_char c" by (metis set_takeWhileD)
    then show ?thesis using at_dollar_ident [of c cs ?r] d cs by simp
  qed
  have full: "drop (length ?w) name = ?r"
    by (metis append_eq_conv_conj name)
  show ?thesis
  proof
    assume "VALID_IDENT_match name"
    then obtain n where n: "1 \<le> n" "n \<le> length ?w" "at_dollar (drop n name)"
      by (auto simp: VALID_IDENT_match_def list_ex_iff Let_def)
    then have "n = length ?w" using short [of n] by (cases "n < length ?w") auto
    then show "?w \<noteq> [] \<and> at_dollar ?r" using n full by auto
  next
    assume a: "?w \<noteq> [] \<and> at_dollar ?r"
    then have "1 \<le> length ?w" by (cases ?w) auto
    then show "VALID_IDENT_match name"
      using a full
      by (auto simp: VALID_IDENT_match_def list_ex_iff Let_def intro!: bexI [of _ "length ?w"])
  qed
qed

lemma spec_valid_ident_match: "spec_valid_ident name \<Longrightarrow> VALID_IDENT_match name"
proof -
  assume a: "spec_valid_ident name"
  then have all: "\<forall>c\<in>set name. ident_char c" and ne: "name \<noteq> []"
    by (simp_all add: spec_valid_ident_def list_all_iff)
  from all have tw: "takeWhile ident_char name = name"
    and dw: "dropWhile ident_char name = []"
    by (simp_all add: takeWhile_eq_all_conv)
  show ?thesis
    unfolding VALID_IDENT_match_iff tw dw at_dollar_def using ne by simp
qed

lemma safe_ident_accepts: "spec_valid_ident name \<Longrightarrow> safe_ident name = Inr name"
  by (simp add: safe_ident_def spec_valid_ident_match)

lemma safe_ident_rejects:
  "\<not> VALID_IDENT_match name \<Longrightarrow> safe_ident name = Inl (ValueError name)"
  by (simp add: safe_ident_def)

lemma newline_not_ident: "\<not> ident_char (CHR 0x0A)"
  by (simp add: ident_char_def)

lemma VALID_IDENT_match_spec:
  "VALID_IDENT_match name \<longleftrightarrow>
     spec_valid_ident name \<or> (\<exists>w. name = w @ [CHR 0x0A] \<and> spec_valid_ident w)"
proof
  let ?w = "takeWhile ident_char name" and ?r = "dropWhile ident_char name"
  assume "VALID_IDENT_match name"
  then have w: "?w \<noteq> []" and r: "?r = [] \<or> ?r = [CHR 0x0A]"
    unfolding VALID_IDENT_match_iff at_dollar_def by blast+
  have name: "name = ?w @ ?r" by simp
  have "\<forall>c\<in>set ?w. ident_char c" by (auto dest: set_takeWhileD)
  with w have sw: "spec_valid_ident ?w" unfolding spec_valid_ident_def list_all_iff by blast
  from r show "spec_valid_ident name \<or> (\<exists>w. name = w @ [CHR 0x0A] \<and> spec_valid_ident w)"
  proof
    assume "?r = []"
    with name have "name = ?w" by (metis append_Nil2)
    with sw show ?thesis by (metis (full_types))
  next
    assume "?r = [CHR 0x0A]"
    with name have "name = ?w @ [CHR 0x0A]" by metis
    with sw show ?thesis by blast
  qed
next
  assume "spec_valid_ident name \<or> (\<exists>w. name = w @ [CHR 0x0A] \<and> spec_valid_ident w)"
  then show "VALID_IDENT_match name"
  proof
    assume "spec_valid_ident name"
    then show ?thesis by (rule spec_valid_ident_match)
  next
    assume "\<exists>w. name = w @ [CHR 0x0A] \<and> spec_valid_ident w"
    then obtain w where n: "name = w @ [CHR 0x0A]" and w: "w \<noteq> []"
      and all: "\<And>c. c \<in> set w \<Longrightarrow> ident_char c"
      unfolding spec_valid_ident_def list_all_iff by blast
    have t: "takeWhile ident_char name = w"
      unfolding n using all by (simp add: takeWhile_append2 newline_not_ident)
    have d: "dropWhile ident_char name = [CHR 0x0A]"
      unfolding n using all by (simp add: dropWhile_append2 newline_not_ident)
    show ?thesis unfolding VALID_IDENT_match_iff t d at_dollar_def using w by simp
  qed
qed

lemma safe_ident_cases:
  "safe_ident name =
     (if spec_valid_ident name \<or> (\<exists>w. name = w @ [CHR 0x0A] \<and> spec_valid_ident w)
      then Inr name else Inl (ValueError name))"
  unfolding safe_ident_def VALID_IDENT_match_spec by simp

lemma sample_config_simps:
  "PG_DB sample_config = ''shop''"
  "PG_USER sample_config = ''etl''"
  "PG_PASSWORD sample_config = ''secret''"
  "PG_SCHEMA sample_config = ''public''"
  "CSV_SEP sample_config = '',''"
  "CSV_QUOTE sample_config = ''MINIMAL''"
  "CSV_LINE_TERMINATOR sample_config = [CHR 0x0A]"
  "CHUNKSIZE sample_config = 2"
  "OUTPUT_DIR sample_config = ''/out''"
  "S3_BUCKET sample_config = ''lake''"
  "S3_PREFIX sample_config = ''raw/''"
  "TIMESTAMP sample_config = ''20240101T000000Z''"
  by (simp_all add: sample_config_def load_config_def sample_env_def getenv_def upper_def
      upper_char_def)

text \<open>
  Claim C2 has the guard accept exactly the non-empty names of ASCII letters,
  digits and underscore, as the docstring of \<open>safe_ident\<close> says. The pattern's \<open>$\<close>
  also matches before a final newline, so a schema name such as \<open>public\<close>
  followed by a newline, which is not such a name, comes back unchanged instead
  of being rejected. By \<open>safe_ident_cases\<close> the names of this shape are the only
  ones on which the guard and the claim differ.
\<close>

theorem safe_ident_trailing_newline:
  "\<not> spec_valid_ident (''public'' @ [CHR 0x0A]) \<and>
   safe_ident (''public'' @ [CHR 0x0A]) = Inr (''public'' @ [CHR 0x0A])"
  by (simp add: spec_valid_ident_def safe_ident_def VALID_IDENT_match_iff ident_char_def
      at_dollar_def)

section \<open>Properties of the existence check\<close>

text \<open>
  Claim C4: \<open>table_exists\<close> issues one catalog query whose text is the constant
  \<open>catalog_query\<close>, with the schema and the table as bound parameters; when the
  query answers, the result is true exactly when the count is greater than
  zero, so a table that is not listed gives \<open>False\<close> and no error.
\<close>

theorem table_exists_count:
  assumes "scalar w catalog_query [(''schema'', PG_SCHEMA cfg), (''tbl'', table_name)] = Gives r"
  shows "table_exists cfg w table_name st =
           (Inr (\<exists>n. r = Some n \<and> 0 < n),
            emit (Execute catalog_query [(''schema'', PG_SCHEMA cfg), (''tbl'', table_name)]) st)"
  using assms by (auto simp: table_exists_def or_zero_def split: option.splits)

theorem table_exists_count_witness:
  "table_exists sample_config sample_world ''orders'' start =
     (Inr False,
      emit (Execute catalog_query [(''schema'', ''public''), (''tbl'', ''orders'')]) start)"
proof -
  have h: "scalar sample_world catalog_query
             [(''schema'', PG_SCHEMA sample_config), (''tbl'', ''orders'')] = Gives (Some 0)"
    by (simp add: sample_world_def sample_config_simps)
  show ?thesis
    using table_exists_count [OF h, of start] by (simp add: sample_config_simps)
qed

section \<open>Properties of the quoting mode\<close>

text \<open>
  Claim C7 as stated fails: the configured name is upper-cased and looked up
  among \<open>MINIMAL\<close>, \<open>ALL\<close>, \<open>NONNUMERIC\<close> and \<open>NONE\<close>, so the hyphenated name
  \<open>non-numeric\<close> is not recognised and selects the minimal mode.
\<close>

theorem csv_quote_const_non_numeric:
  "csv_quote_const (upper ''non-numeric'') = QUOTE_MINIMAL \<and>
   csv_quote_const (upper ''non-numeric'') \<noteq> QUOTE_NONNUMERIC"
  by (simp add: csv_quote_const_def upper_def upper_char_def)

text \<open>
  Claim C7, amended: the names \<open>minimal\<close>, \<open>all\<close>, \<open>nonnumeric\<close> and \<open>none\<close>,
  upper-cased, select their quoting constants, and every name outside the four
  keys selects the minimal mode.
\<close>

theorem csv_quote_const_selection:
  "csv_quote_const (upper ''minimal'') = QUOTE_MINIMAL \<and>
   csv_quote_const (upper ''all'') = QUOTE_ALL \<and>
   csv_quote_const (upper ''nonnumeric'') = QUOTE_NONNUMERIC \<and>
   csv_quote_const (upper ''none'') = QUOTE_NONE \<and>
   (name \<notin> {''MINIMAL'', ''ALL'', ''NONNUMERIC'', ''NONE''} \<longrightarrow>
      csv_quote_const name = QUOTE_MINIMAL)"
  by (simp add: csv_quote_const_def upper_def upper_char_def)

theorem csv_quote_const_selection_witness:
  "upper ''fancy'' \<notin> {''MINIMAL'', ''ALL'', ''NONNUMERIC'', ''NONE''} \<and>
   csv_quote_const (upper ''fancy'') = QUOTE_MINIMAL"
  using csv_quote_const_selection [of "upper ''fancy''"]
  by (simp add: upper_def upper_char_def)

section \<open>Properties of the upload key\<close>

lemma rev_split_while: "p = rev (dropWhile P (rev p)) @ rev (takeWhile P (rev p))"
proof -
  have "rev (rev p) = rev (takeWhile P (rev p) @ dropWhile P (rev p))"
    by (simp only: takeWhile_dropWhile_id)
  then show ?thesis by (simp only: rev_rev_ident rev_append)
qed

lemma member_slash: "List.member ''/'' = (\<lambda>c. c = CHR ''/'')"
  by (auto simp: fun_eq_iff)

lemma rstrip_slash:
  "\<exists>k. p = rstrip ''/'' p @ replicate k CHR ''/''"
proof -
  let ?P = "\<lambda>c. c = CHR ''/''"
  let ?t = "takeWhile ?P (rev p)"
  have "\<forall>y\<in>set ?t. y = CHR ''/''" by (auto dest: set_takeWhileD)
  then have "replicate (length ?t) CHR ''/'' = ?t" by (rule replicate_length_same)
  then have "rev ?t = replicate (length ?t) CHR ''/''"
    by (metis rev_replicate)
  moreover have "p = rev (dropWhile ?P (rev p)) @ rev ?t" by (rule rev_split_while)
  ultimately have "p = rstrip ''/'' p @ replicate (length ?t) CHR ''/''"
    by (simp add: rstrip_def member_slash)
  then show ?thesis ..
qed

lemma rstrip_slash_last: "rstrip ''/'' p \<noteq> [] \<Longrightarrow> last (rstrip ''/'' p) \<noteq> CHR ''/''"
proof -
  let ?P = "\<lambda>c. c = CHR ''/''"
  assume "rstrip ''/'' p \<noteq> []"
  then have ne: "dropWhile ?P (rev p) \<noteq> []" by (simp add: rstrip_def member_slash)
  then have "\<not> ?P (hd (dropWhile ?P (rev p)))" by (rule hd_dropWhile)
  then show ?thesis using ne by (simp add: rstrip_def member_slash last_rev)
qed

lemma basename_suffix:
  "\<exists>d. p = d @ basename p \<and> (d = [] \<or> last d = CHR ''/'') \<and> CHR ''/'' \<notin> set (basename p)"
proof -
  let ?P = "\<lambda>c. c \<noteq> CHR ''/''"
  let ?d = "rev (dropWhile ?P (rev p))"
  have 1: "p = ?d @ basename p"
    unfolding basename_def by (rule rev_split_while)
  have 2: "?d = [] \<or> last ?d = CHR ''/''"
  proof (cases "dropWhile ?P (rev p) = []")
    case True then show ?thesis by simp
  next
    case False
    then have "\<not> ?P (hd (dropWhile ?P (rev p)))" by (rule hd_dropWhile)
    then show ?thesis using False by (simp add: last_rev)
  qed
  have 3: "CHR ''/'' \<notin> set (basename p)"
    by (auto simp: basename_def dest: set_takeWhileD)
  from 1 2 3 show ?thesis by blast
qed

lemma basename_sample: "basename ''/out/users_1.csv'' = ''users_1.csv''"
  by (simp add: basename_def)

lemma rstrip_sample: "rstrip ''/'' ''raw//'' = ''raw''"
  by (simp add: rstrip_def)

lemma upload_file_sample: "upload_file sample_world a b c = None"
  by (simp add: sample_world_def)

text \<open>
  Claim C8: when the prefix is absent or empty, the file is uploaded under the
  base name of the local path, and a successful upload returns that key; when
  the prefix is not empty, the key is the prefix without its trailing slashes,
  a slash, and the base name. In both cases the key returned is the key of the
  one upload that is made, the only other effect is the line that reports it,
  and the local files are unchanged.
\<close>

theorem upload_to_s3_key:
  "((prefix = None \<or> prefix = Some []) \<and>
    upload_file w local_path bucket (basename local_path) = None
      \<longrightarrow> upload_to_s3 w local_path bucket prefix st =
            (Inr (basename local_path),
             st\<lparr>trace := trace st @
                  [UploadFile local_path bucket (basename local_path),
                   Stdout (MsgUploaded bucket (basename local_path))]\<rparr>)) \<and>
   (prefix = Some p \<and> p \<noteq> [] \<and>
    upload_file w local_path bucket (rstrip ''/'' p @ ''/'' @ basename local_path) = None
      \<longrightarrow> upload_to_s3 w local_path bucket prefix st =
            (Inr (rstrip ''/'' p @ ''/'' @ basename local_path),
             st\<lparr>trace := trace st @
                  [UploadFile local_path bucket (rstrip ''/'' p @ ''/'' @ basename local_path),
                   Stdout (MsgUploaded bucket (rstrip ''/'' p @ ''/'' @ basename local_path))]\<rparr>))"
  by (auto simp: upload_to_s3_def Let_def emit_def)

theorem upload_to_s3_key_witness:
  "upload_to_s3 sample_world ''/out/users_1.csv'' ''lake'' (Some []) start =
     (Inr ''users_1.csv'',
      start\<lparr>trace := trace start @
        [UploadFile ''/out/users_1.csv'' ''lake'' ''users_1.csv'',
         Stdout (MsgUploaded ''lake'' ''users_1.csv'')]\<rparr>) \<and>
   upload_to_s3 sample_world ''/out/users_1.csv'' ''lake'' (Some ''raw//'') start =
     (Inr ''raw/users_1.csv'',
      start\<lparr>trace := trace start @
        [UploadFile ''/out/users_1.csv'' ''lake'' ''raw/users_1.csv'',
         Stdout (MsgUploaded ''lake'' ''raw/users_1.csv'')]\<rparr>)"
  using upload_to_s3_key [where prefix = "Some []" and w = sample_world
      and local_path = "''/out/users_1.csv''" and bucket = "''lake''" and st = start]
    upload_to_s3_key [where prefix = "Some ''raw//''" and p = "''raw//''" and w = sample_world
      and local_path = "''/out/users_1.csv''" and bucket = "''lake''" and st = start]
  by (simp add: upload_file_sample basename_sample rstrip_sample)

section \<open>Properties of the run\<close>

text \<open>
  Claim C5: when the database name, the user, the password, the table list or
  the bucket is empty, \<open>main\<close> exits with status 1; the files are untouched and
  the only effect is one line on the error stream, so no directory is created
  and no query is issued.
\<close>

theorem main_missing_config:
  assumes "PG_DB cfg = [] \<or> PG_USER cfg = [] \<or> PG_PASSWORD cfg = [] \<or> TABLES cfg = [] \<or>
           S3_BUCKET cfg = []"
  shows "fst (main cfg w st) = SysExit 1 \<and>
         files (snd (main cfg w st)) = files st \<and>
         (trace (snd (main cfg w st)) = trace st @ [Stderr MsgMissingEnv] \<or>
          trace (snd (main cfg w st)) = trace st @ [Stderr MsgMissingBucket])"
  using assms by (auto simp: main_def emit_def)

theorem main_missing_config_witness:
  "fst (main (sample_config\<lparr>S3_BUCKET := []\<rparr>) sample_world start) = SysExit 1 \<and>
   files (snd (main (sample_config\<lparr>S3_BUCKET := []\<rparr>) sample_world start)) = files start \<and>
   (trace (snd (main (sample_config\<lparr>S3_BUCKET := []\<rparr>) sample_world start)) =
      trace start @ [Stderr MsgMissingEnv] \<or>
    trace (snd (main (sample_config\<lparr>S3_BUCKET := []\<rparr>) sample_world start)) =
      trace start @ [Stderr MsgMissingBucket])"
proof -
  have h: "PG_DB (sample_config\<lparr>S3_BUCKET := []\<rparr>) = [] \<or>
           PG_USER (sample_config\<lparr>S3_BUCKET := []\<rparr>) = [] \<or>
           PG_PASSWORD (sample_config\<lparr>S3_BUCKET := []\<rparr>) = [] \<or>
           TABLES (sample_config\<lparr>S3_BUCKET := []\<rparr>) = [] \<or>
           S3_BUCKET (sample_config\<lparr>S3_BUCKET := []\<rparr>) = []"
    by simp
  show ?thesis
    by (rule main_missing_config [OF h])
qed

section \<open>Properties of the chunked export\<close>

lemma chunks_of_Nil [simp]: "chunks_of n [] = []"
  by (simp add: chunks_of.simps)

lemma chunks_of_step:
  "0 < n \<Longrightarrow> xs \<noteq> [] \<Longrightarrow> chunks_of n xs = take n xs # chunks_of n (drop n xs)"
  by (subst chunks_of.simps) simp

lemma concat_chunks_of: "0 < n \<Longrightarrow> concat (chunks_of n xs) = xs"
proof (induction n xs rule: chunks_of.induct)
  case (1 n xs)
  show ?case
  proof (cases "xs = []")
    case True then show ?thesis by simp
  next
    case False
    with 1 show ?thesis by (simp add: chunks_of_step)
  qed
qed

lemma length_chunks_of: "0 < n \<Longrightarrow> length (chunks_of n xs) = (length xs + n - 1) div n"
proof (induction n xs rule: chunks_of.induct)
  case (1 n xs)
  show ?case
  proof (cases "xs = []")
    case True
    with 1(2) show ?thesis by simp
  next
    case False
    then have pos: "0 < length xs" by simp
    have ih: "length (chunks_of n (drop n xs)) = (length xs - n + n - 1) div n"
      using 1 False by simp
    show ?thesis
    proof (cases "n \<le> length xs")
      case True
      then have "(length xs + n - 1) div n = Suc ((length xs - 1) div n)"
        using 1(2) pos by (metis Nat.add_diff_assoc2 One_nat_def Suc_leI div_add_self2 less_numeral_extra(3) add.commute plus_1_eq_Suc)
      moreover have "(length xs - n + n - 1) div n = (length xs - 1) div n"
        using True by simp
      ultimately show ?thesis using ih False 1(2) by (simp add: chunks_of_step)
    next
      case False2: False
      then have "length xs - n = 0" by simp
      moreover have "(length xs + n - 1) div n = 1"
      proof (rule div_nat_eqI)
        show "n * 1 \<le> length xs + n - 1" using pos by linarith
        have "n * Suc 1 = n + n" by simp
        then show "length xs + n - 1 < n * Suc 1" using False2 pos by linarith
      qed
      ultimately show ?thesis using False 1(2) by (simp add: chunks_of_step)
    qed
  qed
qed

lemma chunks_of_bounds:
  "0 < n \<Longrightarrow> c \<in> set (chunks_of n xs) \<Longrightarrow> c \<noteq> [] \<and> length c \<le> n"
proof (induction n xs rule: chunks_of.induct)
  case (1 n xs)
  show ?case
  proof (cases "xs = []")
    case True with 1 show ?thesis by simp
  next
    case False
    with 1 show ?thesis by (auto simp: chunks_of_step)
  qed
qed

lemma to_csv_eq:
  "to_csv chunk path h sep q lt st =
     st\<lparr>files := (files st)(path \<mapsto>
             file_lines st path @ (if h then [Header (columns chunk)] else []) @
             map Data (rows chunk)),
        trace := trace st @ [ToCsv path h sep q lt]\<rparr>"
  by (simp add: to_csv_def emit_def Let_def)

lemma file_lines_trace [simp]: "file_lines (st\<lparr>trace := t\<rparr>) path = file_lines st path"
  by (simp add: file_lines_def)

lemma export_chunks_written:
  "export_chunks cfg p q chs (True, rc, st) =
     (True, rc + length (concat (map rows chs)),
      if chs = [] then st
      else st\<lparr>files := (files st)(p \<mapsto> file_lines st p @ map Data (concat (map rows chs))),
              trace := trace st @
                replicate (length chs) (ToCsv p False (CSV_SEP cfg) q (CSV_LINE_TERMINATOR cfg))\<rparr>)"
proof (induction chs arbitrary: rc st)
  case Nil
  show ?case by simp
next
  case (Cons c cs)
  show ?case
    by (simp add: Cons.IH to_csv_eq file_lines_def replicate_append_same)
qed

lemma export_chunks_fresh:
  assumes "chs \<noteq> []"
  shows "export_chunks cfg p q chs (False, rc, st) =
     (True, rc + length (concat (map rows chs)),
      st\<lparr>files := (files st)(p \<mapsto>
              file_lines st p @ Header (columns (hd chs)) # map Data (concat (map rows chs))),
         trace := trace st @
           ToCsv p True (CSV_SEP cfg) q (CSV_LINE_TERMINATOR cfg) #
           replicate (length chs - 1) (ToCsv p False (CSV_SEP cfg) q (CSV_LINE_TERMINATOR cfg))\<rparr>)"
proof -
  from assms obtain c cs where chs: "chs = c # cs" by (cases chs) auto
  show ?thesis
    unfolding chs
    by (simp add: export_chunks_written to_csv_eq file_lines_def)
qed

lemma read_sql_chunks:
  assumes "result_set w query = Gives f"
  shows "read_sql w query n st =
           (Inr (chunked n f), st\<lparr>trace := trace st @ [ReadSql query n]\<rparr>)"
  using assms by (simp add: read_sql_def emit_def Let_def)

lemma rows_of_chunks:
  "map rows (map (\<lambda>rs. \<lparr>columns = cols, rows = rs\<rparr>) css) = css"
  by (induction css) simp_all

lemma chunked_facts:
  assumes C: "0 < n"
  shows "chunked n f \<noteq> []"
    and "columns (hd (chunked n f)) = columns f"
    and "concat (map rows (chunked n f)) = rows f"
    and "length (chunked n f) - 1 = (length (rows f) + n - 1) div n - 1"
proof -
  show "chunked n f \<noteq> []" "columns (hd (chunked n f)) = columns f"
    using C by (simp_all add: chunked_def chunks_of_step)
  show "concat (map rows (chunked n f)) = rows f"
    using C unfolding chunked_def rows_of_chunks by (simp add: concat_chunks_of)
  show "length (chunked n f) - 1 = (length (rows f) + n - 1) div n - 1"
    using C by (simp add: chunked_def length_chunks_of)
qed

lemma export_table_to_csv_ok:
  assumes tbl: "VALID_IDENT_match table_name"
    and schema: "VALID_IDENT_match (PG_SCHEMA cfg)"
    and f: "result_set w (select_all (PG_SCHEMA cfg) table_name) = Gives f"
    and C: "0 < CHUNKSIZE cfg"
  shows "export_table_to_csv cfg w table_name out_dir st =
     (let path = path_join out_dir (table_name @ ''_'' @ TIMESTAMP cfg @ ''.csv'');
          R = length (rows f);
          C = CHUNKSIZE cfg;
          append = (\<lambda>h. ToCsv path h (CSV_SEP cfg) (csv_quote_const (CSV_QUOTE cfg))
                      (CSV_LINE_TERMINATOR cfg));
          query = select_all (PG_SCHEMA cfg) table_name
      in (Inr path,
          st\<lparr>files := (files st)(path \<mapsto>
                  file_lines st path @ Header (columns f) # map Data (rows f)),
             trace := trace st @ ReadSql query C # append True #
                replicate ((R + C - 1) div C - 1) (append False) @
                [Stdout (MsgExported table_name path R)]\<rparr>))"
proof -
  note facts = chunked_facts [OF C, of f]
  note loop = export_chunks_fresh [OF facts(1), unfolded facts(2,3,4)]
  show ?thesis
    using tbl schema
    by (simp add: export_table_to_csv_def safe_ident_def read_sql_chunks [OF f] loop emit_def
        Let_def)
qed


lemma sample_idents:
  "VALID_IDENT_match ''users''" "VALID_IDENT_match (PG_SCHEMA sample_config)"
  by (simp_all add: sample_config_simps VALID_IDENT_match_iff ident_char_def at_dollar_def)

lemma sample_result_set:
  "result_set sample_world (select_all (PG_SCHEMA sample_config) ''users'') = Gives users_frame"
  by (simp add: sample_world_def sample_config_simps)


lemma sample_path:
  "path_join ''/out'' ''users_20240101T000000Z.csv'' = ''/out/users_20240101T000000Z.csv''"
  by (simp add: path_join_def)



section \<open>Properties of the export phase\<close>

lemma files_emit [simp]: "files (emit e st) = files st"
  by (simp add: emit_def)

lemma trace_emit [simp]: "trace (emit e st) = trace st @ [e]"
  by (simp add: emit_def)

lemma file_lines_emit [simp]: "file_lines (emit e st) path = file_lines st path"
  by (simp add: file_lines_def)

lemma table_exists_eq:
  "table_exists cfg w table_name st =
     (case scalar w catalog_query [(''schema'', PG_SCHEMA cfg), (''tbl'', table_name)] of
        Fails \<Rightarrow> Inl DatabaseError
      | Gives r \<Rightarrow> Inr (0 < or_zero r),
      emit (Execute catalog_query [(''schema'', PG_SCHEMA cfg), (''tbl'', table_name)]) st)"
  by (simp add: table_exists_def Let_def split: reply.splits)

lemma upload_to_s3_files: "files (snd (upload_to_s3 w local_path bucket prefix st)) = files st"
  by (simp add: upload_to_s3_def Let_def split: option.splits error.splits)

lemma upload_all_files: "files (snd (upload_all cfg w paths st)) = files st"
proof (induction paths arbitrary: st)
  case Nil
  show ?case by simp
next
  case (Cons path paths)
  obtain r st1 where u: "upload_to_s3 w path (S3_BUCKET cfg) (Some (S3_PREFIX cfg)) st = (r, st1)"
    by (cases "upload_to_s3 w path (S3_BUCKET cfg) (Some (S3_PREFIX cfg)) st")
  have "files st1 = files st"
    using upload_to_s3_files [of w path "S3_BUCKET cfg" "Some (S3_PREFIX cfg)" st] u by simp
  then show ?case
    using u Cons.IH [of st1] by (cases r) simp_all
qed

lemma export_tables_all_skipped:
  assumes "\<forall>t\<in>set tbls. \<exists>r. scalar w catalog_query [(''schema'', PG_SCHEMA cfg), (''tbl'', t)] = Gives r
             \<and> or_zero r \<le> 0"
  shows "export_tables cfg w tbls exported_files st =
     (Inr exported_files,
      st\<lparr>trace := trace st @
            concat (map (\<lambda>t. [Execute catalog_query [(''schema'', PG_SCHEMA cfg), (''tbl'', t)],
                               Stdout (MsgSkipped t (PG_DB cfg) (PG_SCHEMA cfg))]) tbls)\<rparr>)"
  using assms
proof (induction tbls arbitrary: st)
  case Nil
  show ?case by simp
next
  case (Cons t tbls)
  from Cons.prems obtain r where
    r: "scalar w catalog_query [(''schema'', PG_SCHEMA cfg), (''tbl'', t)] = Gives r"
    and z: "or_zero r \<le> 0" by auto
  from Cons.prems have rest: "\<forall>t\<in>set tbls. \<exists>r.
      scalar w catalog_query [(''schema'', PG_SCHEMA cfg), (''tbl'', t)] = Gives r \<and> or_zero r \<le> 0"
    by simp
  show ?case
    using z by (simp add: table_exists_eq r Cons.IH [OF rest] emit_def)
qed

text \<open>
  Claim C6: when the required settings are present and the catalog counts no
  entry for any configured table, \<open>main\<close> exits with status 2. Its effects are
  the creation of the output directory, one catalog query and one warning per
  table, and the closing line on the error stream; no upload is attempted and
  no file is written.
\<close>

theorem main_nothing_exported:
  assumes "PG_DB cfg \<noteq> []" and "PG_USER cfg \<noteq> []" and "PG_PASSWORD cfg \<noteq> []"
    and "TABLES cfg \<noteq> []" and "S3_BUCKET cfg \<noteq> []"
    and "\<forall>t\<in>set (TABLES cfg). \<exists>r.
           scalar w catalog_query [(''schema'', PG_SCHEMA cfg), (''tbl'', t)] = Gives r \<and>
           or_zero r \<le> 0"
  shows "fst (main cfg w st) = SysExit 2 \<and>
         files (snd (main cfg w st)) = files st \<and>
         trace (snd (main cfg w st)) =
           trace st @ Makedirs (OUTPUT_DIR cfg) #
           concat (map (\<lambda>t. [Execute catalog_query [(''schema'', PG_SCHEMA cfg), (''tbl'', t)],
                              Stdout (MsgSkipped t (PG_DB cfg) (PG_SCHEMA cfg))]) (TABLES cfg)) @
           [Stderr MsgNothingExported] \<and>
         ((\<exists>local_path bucket key. UploadFile local_path bucket key \<in> set (trace (snd (main cfg w st))))
            = (\<exists>local_path bucket key. UploadFile local_path bucket key \<in> set (trace st)))"
  using assms(1-5)
  by (auto simp: main_def export_tables_all_skipped [OF assms(6)] ensure_output_dir_def emit_def)

lemma sample_scalar_absent:
  "t \<noteq> ''users'' \<Longrightarrow>
   scalar sample_world catalog_query [(''schema'', PG_SCHEMA sample_config), (''tbl'', t)] =
     Gives (Some 0)"
  by (simp add: sample_world_def)

theorem main_nothing_exported_witness:
  "fst (main (sample_config\<lparr>TABLES := [''orders'', ''items'']\<rparr>) sample_world start) = SysExit 2 \<and>
   trace (snd (main (sample_config\<lparr>TABLES := [''orders'', ''items'']\<rparr>) sample_world start)) =
     [Makedirs ''/out'',
      Execute catalog_query [(''schema'', ''public''), (''tbl'', ''orders'')],
      Stdout (MsgSkipped ''orders'' ''shop'' ''public''),
      Execute catalog_query [(''schema'', ''public''), (''tbl'', ''items'')],
      Stdout (MsgSkipped ''items'' ''shop'' ''public''),
      Stderr MsgNothingExported]"
proof -
  let ?cfg = "sample_config\<lparr>TABLES := [''orders'', ''items'']\<rparr>"
  have h: "\<forall>t\<in>set (TABLES ?cfg). \<exists>r.
           scalar sample_world catalog_query [(''schema'', PG_SCHEMA ?cfg), (''tbl'', t)] = Gives r \<and>
           or_zero r \<le> 0"
    using sample_scalar_absent by (auto simp: or_zero_def)
  have c: "PG_DB ?cfg \<noteq> []" "PG_USER ?cfg \<noteq> []" "PG_PASSWORD ?cfg \<noteq> []" "TABLES ?cfg \<noteq> []"
    "S3_BUCKET ?cfg \<noteq> []"
    by (simp_all add: sample_config_simps)
  show ?thesis
    using main_nothing_exported [OF c h, of start]
    by (simp add: sample_config_simps start_def)
qed

lemma sample_scalar_unsafe:
  "scalar sample_world catalog_query
     [(''schema'', ''public''), (''tbl'', ''users; DROP TABLE x'')] = Gives (Some 0)"
  by (simp add: sample_world_def)

text \<open>
  Claim C3 as stated fails: \<open>main\<close> asks the catalog about every configured name
  before the exporter and its guard are reached. For the name
  \<open>users; DROP TABLE x\<close>, which the catalog does not list, the existence query is
  executed with the name as a parameter, the table is skipped, and the guard
  never runs.
\<close>

theorem unsafe_name_reaches_catalog:
  "fst (main (sample_config\<lparr>TABLES := [''users; DROP TABLE x'']\<rparr>) sample_world start) = SysExit 2 \<and>
   trace (snd (main (sample_config\<lparr>TABLES := [''users; DROP TABLE x'']\<rparr>) sample_world start)) =
     [Makedirs ''/out'',
      Execute catalog_query [(''schema'', ''public''), (''tbl'', ''users; DROP TABLE x'')],
      Stdout (MsgSkipped ''users; DROP TABLE x'' ''shop'' ''public''),
      Stderr MsgNothingExported]"
  by (simp add: main_def sample_config_simps table_exists_eq sample_scalar_unsafe
      ensure_output_dir_def emit_def start_def or_zero_def)

text \<open>
  Claim C3, amended: for a name that the pattern does not match, the exporter
  fails with the error naming it and has no effect at all, so no query text is
  built from it; the existence check before it issues the catalog query with
  the name as a bound parameter; and the loop either stops with the database
  error, or stops with the guard's error when the catalog lists the name, or
  skips the name when it does not.
\<close>

theorem unsafe_name_rejected:
  assumes "\<not> VALID_IDENT_match name"
  shows "export_table_to_csv cfg w name out_dir st = (Inl (ValueError name), st) \<and>
         snd (table_exists cfg w name st) =
           emit (Execute catalog_query [(''schema'', PG_SCHEMA cfg), (''tbl'', name)]) st \<and>
         export_tables cfg w (name # tbls) exported_files st =
           (let st1 = emit (Execute catalog_query [(''schema'', PG_SCHEMA cfg), (''tbl'', name)]) st
            in case scalar w catalog_query [(''schema'', PG_SCHEMA cfg), (''tbl'', name)] of
                 Fails \<Rightarrow> (Inl DatabaseError, st1)
               | Gives r \<Rightarrow>
                   if 0 < or_zero r then (Inl (ValueError name), st1)
                   else export_tables cfg w tbls exported_files
                          (emit (Stdout (MsgSkipped name (PG_DB cfg) (PG_SCHEMA cfg))) st1))"
proof -
  have e: "export_table_to_csv cfg w name out_dir st' = (Inl (ValueError name), st')" for out_dir st'
    using assms by (simp add: export_table_to_csv_def safe_ident_def)
  show ?thesis
    by (simp add: e table_exists_eq Let_def split: reply.splits)
qed

lemma unsafe_sample: "\<not> VALID_IDENT_match ''users; DROP TABLE x''"
  by (simp add: VALID_IDENT_match_iff ident_char_def at_dollar_def)

theorem unsafe_name_rejected_witness:
  "export_table_to_csv sample_config listing_world ''users; DROP TABLE x'' ''/out'' start =
     (Inl (ValueError ''users; DROP TABLE x''), start) \<and>
   export_tables sample_config listing_world [''users; DROP TABLE x''] [] start =
     (Inl (ValueError ''users; DROP TABLE x''),
      emit (Execute catalog_query [(''schema'', ''public''), (''tbl'', ''users; DROP TABLE x'')])
        start)"
  using unsafe_name_rejected [OF unsafe_sample, of sample_config listing_world "''/out''" start
      "[]" "[]"]
  by (simp add: listing_world_def sample_world_def sample_config_simps Let_def or_zero_def)

lemma export_tables_step:
  assumes tbl: "VALID_IDENT_match t"
    and schema: "VALID_IDENT_match (PG_SCHEMA cfg)"
    and f: "result_set w (select_all (PG_SCHEMA cfg) t) = Gives f"
    and C: "0 < CHUNKSIZE cfg"
    and rows: "rows f \<noteq> []"
    and listed: "scalar w catalog_query [(''schema'', PG_SCHEMA cfg), (''tbl'', t)] = Gives (Some n)"
    and n: "0 < n"
  shows "\<exists>st'. export_tables cfg w (t # ts) acc st =
                 export_tables cfg w ts
                   (acc @ [path_join (OUTPUT_DIR cfg) (t @ ''_'' @ TIMESTAMP cfg @ ''.csv'')]) st' \<and>
               files st' =
                 (files st)(path_join (OUTPUT_DIR cfg) (t @ ''_'' @ TIMESTAMP cfg @ ''.csv'') \<mapsto>
                   file_lines st (path_join (OUTPUT_DIR cfg) (t @ ''_'' @ TIMESTAMP cfg @ ''.csv'')) @
                   Header (columns f) # map Data (rows f))"
proof -
  let ?st1 = "emit (Execute catalog_query [(''schema'', PG_SCHEMA cfg), (''tbl'', t)]) st"
  let ?st2 = "snd (export_table_to_csv cfg w t (OUTPUT_DIR cfg) ?st1)"
  have z: "0 < or_zero (Some n)" using n by (simp add: or_zero_def)
  have 1: "export_tables cfg w (t # ts) acc st =
             export_tables cfg w ts
               (acc @ [path_join (OUTPUT_DIR cfg) (t @ ''_'' @ TIMESTAMP cfg @ ''.csv'')]) ?st2"
    using rows z
    by (simp add: table_exists_eq listed export_table_to_csv_ok [OF tbl schema f C] Let_def)
  have 2: "files ?st2 =
             (files st)(path_join (OUTPUT_DIR cfg) (t @ ''_'' @ TIMESTAMP cfg @ ''.csv'') \<mapsto>
               file_lines st (path_join (OUTPUT_DIR cfg) (t @ ''_'' @ TIMESTAMP cfg @ ''.csv'')) @
               Header (columns f) # map Data (rows f))"
    using rows by (simp add: export_table_to_csv_ok [OF tbl schema f C] Let_def)
  from 1 2 show ?thesis by blast
qed

text \<open>
  Claim C9: every append keeps what the file already holds (\<open>to_csv_eq\<close>), so
  an export of a table with rows leaves at its output path the previous lines
  followed by the header and the data lines; and a run whose table list names
  the same existing table twice leaves them there twice, the second header in
  the middle of the file.
\<close>

theorem export_table_to_csv_appends:
  assumes "VALID_IDENT_match table_name"
    and "VALID_IDENT_match (PG_SCHEMA cfg)"
    and "result_set w (select_all (PG_SCHEMA cfg) table_name) = Gives f"
    and "0 < CHUNKSIZE cfg"
    and "rows f \<noteq> []"
  shows "let path = path_join out_dir (table_name @ ''_'' @ TIMESTAMP cfg @ ''.csv'');
             new = Header (columns f) # map Data (rows f)
         in files (snd (export_table_to_csv cfg w table_name out_dir st)) path =
              Some (file_lines st path @ new) \<and>
            (PG_DB cfg \<noteq> [] \<and> PG_USER cfg \<noteq> [] \<and> PG_PASSWORD cfg \<noteq> [] \<and> S3_BUCKET cfg \<noteq> [] \<and>
             TABLES cfg = [table_name, table_name] \<and> out_dir = OUTPUT_DIR cfg \<and>
             (\<exists>n. 0 < n \<and>
                scalar w catalog_query [(''schema'', PG_SCHEMA cfg), (''tbl'', table_name)] =
                  Gives (Some n))
             \<longrightarrow> files (snd (main cfg w st)) path = Some (file_lines st path @ new @ new))"
proof -
  let ?path = "path_join (OUTPUT_DIR cfg) (table_name @ ''_'' @ TIMESTAMP cfg @ ''.csv'')"
  let ?new = "Header (columns f) # map Data (rows f)"
  have one: "files (snd (export_table_to_csv cfg w table_name out_dir st))
               (path_join out_dir (table_name @ ''_'' @ TIMESTAMP cfg @ ''.csv'')) =
             Some (file_lines st (path_join out_dir (table_name @ ''_'' @ TIMESTAMP cfg @ ''.csv''))
                   @ ?new)"
    using assms(5) by (simp add: export_table_to_csv_ok [OF assms(1-4)] Let_def)
  have two: "files (snd (main cfg w st)) ?path = Some (file_lines st ?path @ ?new @ ?new)"
    if cfg: "PG_DB cfg \<noteq> []" "PG_USER cfg \<noteq> []" "PG_PASSWORD cfg \<noteq> []" "S3_BUCKET cfg \<noteq> []"
      and tables: "TABLES cfg = [table_name, table_name]"
      and listed: "scalar w catalog_query [(''schema'', PG_SCHEMA cfg), (''tbl'', table_name)] =
                     Gives (Some n)"
      and n: "0 < n" for n
  proof -
    let ?st0 = "ensure_output_dir (OUTPUT_DIR cfg) st"
    note step = export_tables_step [OF assms(1-5) listed n]
    from step [of "[table_name]" "[]" ?st0] obtain st1 where
      e1: "export_tables cfg w [table_name, table_name] [] ?st0 =
             export_tables cfg w [table_name] [?path] st1"
      and f1: "files st1 = (files ?st0)(?path \<mapsto> file_lines ?st0 ?path @ ?new)"
      by auto
    from step [of "[]" "[?path]" st1] obtain st2 where
      e2: "export_tables cfg w [table_name] [?path] st1 =
             export_tables cfg w [] [?path, ?path] st2"
      and f2: "files st2 = (files st1)(?path \<mapsto> file_lines st1 ?path @ ?new)"
      by auto
    have l1: "file_lines st1 ?path = file_lines st ?path @ ?new"
      using f1 by (simp add: file_lines_def ensure_output_dir_def)
    have m: "main cfg w st =
               (case upload_all cfg w [?path, ?path] st2 of
                  (Some e, st3) \<Rightarrow> (Raised e, st3)
                | (None, st3) \<Rightarrow> (Returned, emit (Stdout MsgDone) st3))"
      using cfg unfolding main_def tables e1 e2
      by (simp del: export_tables.simps(2) upload_all.simps)
    obtain r st3 where u: "upload_all cfg w [?path, ?path] st2 = (r, st3)"
      by (cases "upload_all cfg w [?path, ?path] st2")
    have "files st3 = files st2"
      using upload_all_files [of cfg w "[?path, ?path]" st2] u by simp
    then have "files (snd (main cfg w st)) = files st2"
      unfolding m u by (cases r) simp_all
    then show ?thesis using f2 l1 by simp
  qed
  show ?thesis
    unfolding Let_def using one two by blast
qed

theorem export_table_to_csv_appends_witness:
  "files (snd (main (sample_config\<lparr>TABLES := [''users'', ''users'']\<rparr>) sample_world start))
     ''/out/users_20240101T000000Z.csv'' =
   Some [Header [''id'', ''name''], Data [''1'', ''ana''], Data [''2'', ''luis''],
         Data [''3'', ''eva''], Data [''4'', ''joel''], Data [''5'', ''iris''],
         Header [''id'', ''name''], Data [''1'', ''ana''], Data [''2'', ''luis''],
         Data [''3'', ''eva''], Data [''4'', ''joel''], Data [''5'', ''iris'']]"
proof -
  let ?cfg = "sample_config\<lparr>TABLES := [''users'', ''users'']\<rparr>"
  have i: "VALID_IDENT_match ''users''" "VALID_IDENT_match (PG_SCHEMA ?cfg)"
    using sample_idents by simp_all
  have r: "result_set sample_world (select_all (PG_SCHEMA ?cfg) ''users'') = Gives users_frame"
    using sample_result_set by simp
  have C: "0 < CHUNKSIZE ?cfg" by (simp add: sample_config_simps)
  have ne: "rows users_frame \<noteq> []" by (simp add: users_frame_def)
  have l: "\<exists>n. 0 < n \<and>
             scalar sample_world catalog_query [(''schema'', PG_SCHEMA ?cfg), (''tbl'', ''users'')] =
               Gives (Some n)"
    by (rule exI [of _ 1]) (simp add: sample_world_def sample_config_simps)
  show ?thesis
    using export_table_to_csv_appends [OF i r C ne, of "''/out''" start] l
    by (simp add: Let_def sample_path sample_config_simps start_def users_frame_def file_lines_def)
qed

section \<open>Properties of the table list\<close>

lemma strip_ends:
  assumes "strip s \<noteq> []"
  shows "\<not> py_isspace (hd (strip s)) \<and> \<not> py_isspace (last (strip s))"
proof -
  let ?u = "dropWhile py_isspace s"
  let ?v = "dropWhile py_isspace (rev ?u)"
  have s: "strip s = rev ?v" unfolding strip_def ..
  have v: "?v \<noteq> []"
  proof
    assume "?v = []"
    then have "rev ?v = []" by (simp only: rev.simps)
    with assms s show False by simp
  qed
  have u: "?u \<noteq> []"
  proof
    assume a: "?u = []"
    have e: "?v = []" unfolding a by simp
    from v e show False by (rule notE)
  qed
  have hv: "\<not> py_isspace (hd ?v)" using v by (rule hd_dropWhile)
  have hu: "\<not> py_isspace (hd ?u)" using u by (rule hd_dropWhile)
  have "last (takeWhile py_isspace (rev ?u) @ ?v) = last ?v" using v by (rule last_appendR)
  then have "last (rev ?u) = last ?v" by (simp only: takeWhile_dropWhile_id)
  then have lv: "last ?v = hd ?u" by (simp only: last_rev)
  have 1: "hd (strip s) = hd ?u" unfolding s hd_rev by (rule lv)
  have 2: "last (strip s) = hd ?v" unfolding s last_rev ..
  show ?thesis unfolding 1 2 using hu hv by (rule conjI)
qed

lemma dropWhile_keep: "xs \<noteq> [] \<Longrightarrow> \<not> P (hd xs) \<Longrightarrow> dropWhile P xs = xs"
  by (cases xs) simp_all

lemma strip_fixed:
  assumes "t \<noteq> []" and "\<not> py_isspace (hd t)" and "\<not> py_isspace (last t)"
  shows "strip t = t"
proof -
  have 1: "dropWhile py_isspace t = t" using assms(1,2) by (rule dropWhile_keep)
  have "rev t \<noteq> []" using assms(1) by simp
  moreover have "\<not> py_isspace (hd (rev t))" unfolding hd_rev by (rule assms(3))
  ultimately have 2: "dropWhile py_isspace (rev t) = rev t" by (rule dropWhile_keep)
  show ?thesis unfolding strip_def 1 2 by (rule rev_rev_ident)
qed

lemma strip_blank:
  assumes "\<forall>c\<in>set s. py_isspace c"
  shows "strip s = []"
proof -
  have d: "dropWhile py_isspace s = []" using assms by simp
  show ?thesis unfolding strip_def d by simp
qed

lemma split_chars: "piece \<in> set (split sep s) \<Longrightarrow> set piece \<subseteq> set s \<and> sep \<notin> set piece"
proof (induction s arbitrary: piece)
  case Nil
  then show ?case by simp
next
  case (Cons c cs)
  show ?case
  proof (cases "c = sep")
    case True
    with Cons.prems have "piece = [] \<or> piece \<in> set (split sep cs)" by simp
    then show ?thesis using Cons.IH by auto
  next
    case False
    show ?thesis
    proof (cases "split sep cs")
      case Nil
      with False Cons.prems show ?thesis by simp
    next
      case (Cons x xs)
      with False Cons.prems have "piece = c # x \<or> piece \<in> set xs" by simp
      moreover have "set x \<subseteq> set cs \<and> sep \<notin> set x"
        using Cons.IH [of x] Cons by simp
      moreover have "piece \<in> set xs \<Longrightarrow> set piece \<subseteq> set cs \<and> sep \<notin> set piece"
        using Cons.IH [of piece] Cons by simp
      ultimately show ?thesis using False by auto
    qed
  qed
qed

lemma parse_tables_trimmed:
  "t \<in> set (parse_tables tables_env) \<Longrightarrow>
     t \<noteq> [] \<and> \<not> py_isspace (hd t) \<and> \<not> py_isspace (last t) \<and> strip t = t"
proof -
  assume "t \<in> set (parse_tables tables_env)"
  then obtain piece where t: "t = strip piece" and ne: "strip piece \<noteq> []"
    by (auto simp: parse_tables_def)
  from strip_ends [OF ne] have e: "\<not> py_isspace (hd t)" "\<not> py_isspace (last t)"
    by (simp_all add: t)
  from ne have "t \<noteq> []" by (simp add: t)
  then show ?thesis using e strip_fixed by blast
qed

lemma parse_tables_blank:
  assumes "list_all (\<lambda>c. c = CHR '','' \<or> py_isspace c) tables_env"
  shows "parse_tables tables_env = []"
proof -
  from assms have all: "\<forall>c\<in>set tables_env. c = CHR '','' \<or> py_isspace c"
    unfolding list_all_iff .
  have space: "py_isspace c"
    if p: "piece \<in> set (split CHR '','' tables_env)" and c: "c \<in> set piece" for piece c
  proof -
    from split_chars [OF p] have "set piece \<subseteq> set tables_env" and "CHR '','' \<notin> set piece"
      by blast+
    with c have "c \<in> set tables_env" and "c \<noteq> CHR '',''" by blast+
    with all show ?thesis by blast
  qed
  have blank: "strip piece = []" if p: "piece \<in> set (split CHR '','' tables_env)" for piece
    by (rule strip_blank) (use space [OF p] in blast)
  have "filter (\<lambda>t. strip t \<noteq> []) (split CHR '','' tables_env) = []"
    unfolding filter_empty_conv using blank by blast
  then show ?thesis unfolding parse_tables_def by simp
qed

lemma map_filter_nonempty:
  "map f (filter (\<lambda>t. f t \<noteq> []) xs) = filter (\<lambda>t. t \<noteq> []) (map f xs)"
  by (induction xs) simp_all

lemma parse_tables_alt:
  "parse_tables tables_env = filter (\<lambda>t. t \<noteq> []) (map strip (split CHR '','' tables_env))"
  unfolding parse_tables_def by (rule map_filter_nonempty)

section \<open>Database calls of a run\<close>

lemma names_listed_table_mono:
  "names_listed_table cfg tbls e \<Longrightarrow> set tbls \<subseteq> set tbls' \<Longrightarrow> names_listed_table cfg tbls' e"
  by (cases e) (auto simp: names_listed_table_def list_ex_iff)

lemma names_listed_table_other [simp]:
  "names_listed_table cfg tbls (Makedirs d)"
  "names_listed_table cfg tbls (ToCsv p h sep q lt)"
  "names_listed_table cfg tbls (UploadFile lp b k)"
  "names_listed_table cfg tbls (Stdout m)"
  "names_listed_table cfg tbls (Stderr m)"
  by (simp_all add: names_listed_table_def)

lemma export_chunks_trace:
  "\<exists>new. trace (snd (snd (export_chunks cfg p q chs (hw, rc, st)))) = trace st @ new \<and>
         list_all (names_listed_table cfg tbls) new"
proof (induction chs arbitrary: hw rc st)
  case Nil
  show ?case by simp
next
  case (Cons c cs)
  let ?st1 = "to_csv c p (\<not> hw) (CSV_SEP cfg) q (CSV_LINE_TERMINATOR cfg) st"
  from Cons.IH [of True "rc + length (rows c)" ?st1] obtain new where
    new: "trace (snd (snd (export_chunks cfg p q cs (True, rc + length (rows c), ?st1)))) =
            trace ?st1 @ new" "list_all (names_listed_table cfg tbls) new"
    by blast
  have "trace ?st1 = trace st @ [ToCsv p (\<not> hw) (CSV_SEP cfg) q (CSV_LINE_TERMINATOR cfg)]"
    by (simp add: to_csv_eq)
  with new have
    "trace (snd (snd (export_chunks cfg p q (c # cs) (hw, rc, st)))) =
       trace st @ (ToCsv p (\<not> hw) (CSV_SEP cfg) q (CSV_LINE_TERMINATOR cfg) # new) \<and>
     list_all (names_listed_table cfg tbls)
       (ToCsv p (\<not> hw) (CSV_SEP cfg) q (CSV_LINE_TERMINATOR cfg) # new)"
    by simp
  then show ?case by blast
qed

lemma export_table_to_csv_trace:
  "\<exists>new. trace (snd (export_table_to_csv cfg w t out_dir st)) = trace st @ new \<and>
         list_all (names_listed_table cfg [t]) new"
proof (cases "VALID_IDENT_match t \<and> VALID_IDENT_match (PG_SCHEMA cfg)")
  case False
  then have "snd (export_table_to_csv cfg w t out_dir st) = st"
    by (auto simp: export_table_to_csv_def safe_ident_def)
  then show ?thesis by simp
next
  case True
  let ?q = "select_all (PG_SCHEMA cfg) t"
  let ?st1 = "st\<lparr>trace := trace st @ [ReadSql ?q (CHUNKSIZE cfg)]\<rparr>"
  have r: "names_listed_table cfg [t] (ReadSql ?q (CHUNKSIZE cfg))"
    by (simp add: names_listed_table_def)
  show ?thesis
  proof (cases "result_set w ?q")
    case Fails
    then have "snd (export_table_to_csv cfg w t out_dir st) = ?st1"
      using True by (simp add: export_table_to_csv_def safe_ident_def read_sql_def emit_def Let_def)
    then show ?thesis using r by simp
  next
    case (Gives f)
    let ?p = "path_join out_dir (t @ ''_'' @ TIMESTAMP cfg @ ''.csv'')"
    let ?chs = "chunked (CHUNKSIZE cfg) f"
    let ?res = "export_chunks cfg ?p (csv_quote_const (CSV_QUOTE cfg)) ?chs (False, 0, ?st1)"
    from export_chunks_trace [of cfg ?p "csv_quote_const (CSV_QUOTE cfg)" ?chs False 0 ?st1 "[t]"]
    obtain new where new: "trace (snd (snd ?res)) = trace ?st1 @ new"
      "list_all (names_listed_table cfg [t]) new" by blast
    have "snd (export_table_to_csv cfg w t out_dir st) =
            emit (Stdout (MsgExported t ?p (fst (snd ?res)))) (snd (snd ?res))"
      using True
      by (simp add: export_table_to_csv_def safe_ident_def read_sql_chunks [OF Gives] Let_def
          split: prod.splits)
    then have "trace (snd (export_table_to_csv cfg w t out_dir st)) =
                 trace st @ (ReadSql ?q (CHUNKSIZE cfg) # new @
                             [Stdout (MsgExported t ?p (fst (snd ?res)))])"
      using new(1) by simp
    moreover have "list_all (names_listed_table cfg [t])
                     (ReadSql ?q (CHUNKSIZE cfg) # new @ [Stdout (MsgExported t ?p (fst (snd ?res)))])"
      using new(2) r by simp
    ultimately show ?thesis by blast
  qed
qed

lemma export_tables_trace:
  "\<exists>new. trace (snd (export_tables cfg w tbls acc st)) = trace st @ new \<and>
         list_all (names_listed_table cfg tbls) new"
proof (induction tbls arbitrary: acc st)
  case Nil
  show ?case by simp
next
  case (Cons t tbls)
  let ?e = "Execute catalog_query [(''schema'', PG_SCHEMA cfg), (''tbl'', t)]"
  let ?st1 = "emit ?e st"
  let ?ok = "names_listed_table cfg (t # tbls)"
  have e: "?ok ?e" by (simp add: names_listed_table_def)
  have up: "list_all ?ok new" if "list_all (names_listed_table cfg tbls) new" for new
    using that names_listed_table_mono [of cfg tbls _ "t # tbls"] by (auto simp: list_all_iff)
  have up1: "list_all ?ok new" if "list_all (names_listed_table cfg [t]) new" for new
    using that names_listed_table_mono [of cfg "[t]" _ "t # tbls"] by (auto simp: list_all_iff)
  show ?case
  proof (cases "scalar w catalog_query [(''schema'', PG_SCHEMA cfg), (''tbl'', t)]")
    case Fails
    then have "trace (snd (export_tables cfg w (t # tbls) acc st)) = trace st @ [?e]"
      by (simp add: table_exists_eq)
    moreover have "list_all ?ok [?e]" using e by simp
    ultimately show ?thesis by blast
  next
    case (Gives r)
    show ?thesis
    proof (cases "0 < or_zero r")
      case False
      let ?m = "Stdout (MsgSkipped t (PG_DB cfg) (PG_SCHEMA cfg))"
      from Cons.IH [of acc "emit ?m ?st1"] obtain new where
        new: "trace (snd (export_tables cfg w tbls acc (emit ?m ?st1))) = trace (emit ?m ?st1) @ new"
        "list_all (names_listed_table cfg tbls) new" by blast
      have "trace (snd (export_tables cfg w (t # tbls) acc st)) = trace st @ (?e # ?m # new)"
        using False new(1) by (simp add: table_exists_eq Gives)
      moreover have "list_all ?ok (?e # ?m # new)" using e up [OF new(2)] by simp
      ultimately show ?thesis by blast
    next
      case True
      obtain res st2 where x: "export_table_to_csv cfg w t (OUTPUT_DIR cfg) ?st1 = (res, st2)"
        by (cases "export_table_to_csv cfg w t (OUTPUT_DIR cfg) ?st1")
      from export_table_to_csv_trace [of cfg w t "OUTPUT_DIR cfg" ?st1] x obtain new1 where
        new1: "trace st2 = trace ?st1 @ new1" "list_all (names_listed_table cfg [t]) new1"
        by auto
      show ?thesis
      proof (cases res)
        case (Inl err)
        have "trace (snd (export_tables cfg w (t # tbls) acc st)) = trace st @ (?e # new1)"
          using True new1(1) by (simp add: table_exists_eq Gives x Inl)
        moreover have "list_all ?ok (?e # new1)" using e up1 [OF new1(2)] by simp
        ultimately show ?thesis by blast
      next
        case (Inr path)
        from Cons.IH [of "acc @ [path]" st2] obtain new where
          new: "trace (snd (export_tables cfg w tbls (acc @ [path]) st2)) = trace st2 @ new"
          "list_all (names_listed_table cfg tbls) new" by blast
        have "trace (snd (export_tables cfg w (t # tbls) acc st)) = trace st @ (?e # new1 @ new)"
          using True new1(1) new(1) by (simp add: table_exists_eq Gives x Inr)
        moreover have "list_all ?ok (?e # new1 @ new)"
          using e up1 [OF new1(2)] up [OF new(2)] by simp
        ultimately show ?thesis by blast
      qed
    qed
  qed
qed

lemma upload_to_s3_trace:
  "\<exists>new. trace (snd (upload_to_s3 w local_path bucket prefix st)) = trace st @ new \<and>
         list_all (names_listed_table cfg tbls) new"
proof -
  let ?key = "case prefix of None \<Rightarrow> basename local_path
              | Some p \<Rightarrow> if p = [] then basename local_path
                          else rstrip ''/'' p @ ''/'' @ basename local_path"
  let ?u = "UploadFile local_path bucket ?key"
  have "trace (snd (upload_to_s3 w local_path bucket prefix st)) = trace st @ [?u] \<or>
        (\<exists>m. trace (snd (upload_to_s3 w local_path bucket prefix st)) = trace st @ [?u, Stdout m]) \<or>
        (\<exists>m. trace (snd (upload_to_s3 w local_path bucket prefix st)) = trace st @ [?u, Stderr m])"
    by (simp add: upload_to_s3_def Let_def split: option.splits error.splits)
  then show ?thesis
    by (elim disjE exE) (rule exI, rule conjI, assumption, simp)+
qed

lemma upload_all_trace:
  "\<exists>new. trace (snd (upload_all cfg w paths st)) = trace st @ new \<and>
         list_all (names_listed_table cfg tbls) new"
proof (induction paths arbitrary: st)
  case Nil
  show ?case by simp
next
  case (Cons path paths)
  obtain r st1 where u: "upload_to_s3 w path (S3_BUCKET cfg) (Some (S3_PREFIX cfg)) st = (r, st1)"
    by (cases "upload_to_s3 w path (S3_BUCKET cfg) (Some (S3_PREFIX cfg)) st")
  from upload_to_s3_trace [of w path "S3_BUCKET cfg" "Some (S3_PREFIX cfg)" st cfg tbls] u
  obtain new1 where new1: "trace st1 = trace st @ new1" "list_all (names_listed_table cfg tbls) new1"
    by auto
  show ?case
  proof (cases r)
    case (Inl e)
    then have "snd (upload_all cfg w (path # paths) st) = st1" by (simp add: u)
    with new1 show ?thesis by blast
  next
    case (Inr key)
    from Cons.IH [of st1] obtain new where
      new: "trace (snd (upload_all cfg w paths st1)) = trace st1 @ new"
      "list_all (names_listed_table cfg tbls) new" by blast
    have "trace (snd (upload_all cfg w (path # paths) st)) = trace st @ (new1 @ new)"
      using new(1) new1(1) by (simp add: u Inr)
    moreover have "list_all (names_listed_table cfg tbls) (new1 @ new)"
      using new1(2) new(2) by simp
    ultimately show ?thesis by blast
  qed
qed

lemma main_trace:
  "\<exists>new. trace (snd (main cfg w st)) = trace st @ new \<and>
         list_all (names_listed_table cfg (TABLES cfg)) new"
proof (cases "PG_DB cfg = [] \<or> PG_USER cfg = [] \<or> PG_PASSWORD cfg = [] \<or> TABLES cfg = [] \<or>
              S3_BUCKET cfg = []")
  case True
  then have "trace (snd (main cfg w st)) = trace st @ [Stderr MsgMissingEnv] \<or>
             trace (snd (main cfg w st)) = trace st @ [Stderr MsgMissingBucket]"
    by (auto simp: main_def)
  then show ?thesis
    by (elim disjE) (rule exI, rule conjI, assumption, simp)+
next
  case False
  let ?ok = "names_listed_table cfg (TABLES cfg)"
  let ?st0 = "ensure_output_dir (OUTPUT_DIR cfg) st"
  obtain res st1 where x: "export_tables cfg w (TABLES cfg) [] ?st0 = (res, st1)"
    by (cases "export_tables cfg w (TABLES cfg) [] ?st0")
  from export_tables_trace [of cfg w "TABLES cfg" "[]" ?st0] x obtain new1 where
    new1: "trace st1 = trace st @ (Makedirs (OUTPUT_DIR cfg) # new1)" "list_all ?ok new1"
    by (auto simp: ensure_output_dir_def)
  have m: "main cfg w st =
             (case res of
                Inl e \<Rightarrow> (Raised e, st1)
              | Inr exported_files \<Rightarrow>
                  if exported_files = []
                  then (SysExit 2, emit (Stderr MsgNothingExported) st1)
                  else (case upload_all cfg w exported_files st1 of
                          (Some e, st2) \<Rightarrow> (Raised e, st2)
                        | (None, st2) \<Rightarrow> (Returned, emit (Stdout MsgDone) st2)))"
    using False by (simp add: main_def x)
  show ?thesis
  proof (cases res)
    case (Inl e)
    then have "trace (snd (main cfg w st)) = trace st @ (Makedirs (OUTPUT_DIR cfg) # new1)"
      by (simp add: m new1(1))
    moreover have "list_all ?ok (Makedirs (OUTPUT_DIR cfg) # new1)" using new1(2) by simp
    ultimately show ?thesis by blast
  next
    case (Inr exported_files)
    show ?thesis
    proof (cases "exported_files = []")
      case True
      then have "trace (snd (main cfg w st)) =
                   trace st @ (Makedirs (OUTPUT_DIR cfg) # new1 @ [Stderr MsgNothingExported])"
        by (simp add: m Inr new1(1))
      moreover have "list_all ?ok (Makedirs (OUTPUT_DIR cfg) # new1 @ [Stderr MsgNothingExported])"
        using new1(2) by simp
      ultimately show ?thesis by blast
    next
      case nonempty: False
      obtain r st2 where u: "upload_all cfg w exported_files st1 = (r, st2)"
        by (cases "upload_all cfg w exported_files st1")
      from upload_all_trace [of cfg w exported_files st1 "TABLES cfg"] u obtain new2 where
        new2: "trace st2 = trace st1 @ new2" "list_all ?ok new2" by auto
      show ?thesis
      proof (cases r)
        case None
        then have "trace (snd (main cfg w st)) =
                     trace st @ (Makedirs (OUTPUT_DIR cfg) # new1 @ new2 @ [Stdout MsgDone])"
          using nonempty by (simp add: m Inr u new1(1) new2(1))
        moreover have "list_all ?ok (Makedirs (OUTPUT_DIR cfg) # new1 @ new2 @ [Stdout MsgDone])"
          using new1(2) new2(2) by simp
        ultimately show ?thesis by blast
      next
        case (Some e)
        then have "trace (snd (main cfg w st)) =
                     trace st @ (Makedirs (OUTPUT_DIR cfg) # new1 @ new2)"
          using nonempty by (simp add: m Inr u new1(1) new2(1))
        moreover have "list_all ?ok (Makedirs (OUTPUT_DIR cfg) # new1 @ new2)"
          using new1(2) new2(2) by simp
        ultimately show ?thesis by blast
      qed
    qed
  qed
qed

text \<open>
  Claim C10: the table list is the list of the comma-separated entries of the
  setting, each stripped, without the entries that are empty after stripping.
  Every name in it is non-empty and has no whitespace at either end; a setting
  of commas and whitespace only gives the empty list, and the run exits with
  status 1; and every database call of a run, the catalog query of the existence
  check and the selection of the exporter, is made for a name of that list.
\<close>

theorem tables_are_trimmed:
  "let tables_env = getenv env ''TABLES'' '''';
       cfg = load_config env chunksize timestamp
   in TABLES cfg = filter (\<lambda>t. t \<noteq> []) (map strip (split CHR '','' tables_env)) \<and>
      (\<forall>t\<in>set (TABLES cfg).
         t \<noteq> [] \<and> \<not> py_isspace (hd t) \<and> \<not> py_isspace (last t) \<and> strip t = t) \<and>
      (list_all (\<lambda>c. c = CHR '','' \<or> py_isspace c) tables_env \<longrightarrow>
         TABLES cfg = [] \<and> fst (main cfg w st) = SysExit 1) \<and>
      (\<exists>new. trace (snd (main cfg w st)) = trace st @ new \<and>
             list_all (names_listed_table cfg (TABLES cfg)) new)"
proof -
  let ?env = "getenv env ''TABLES'' ''''"
  let ?cfg = "load_config env chunksize timestamp"
  have t: "TABLES ?cfg = parse_tables ?env" by (simp add: load_config_def)
  have 1: "TABLES ?cfg = filter (\<lambda>t. t \<noteq> []) (map strip (split CHR '','' ?env))"
    unfolding t by (rule parse_tables_alt)
  have 2: "\<forall>t\<in>set (TABLES ?cfg).
             t \<noteq> [] \<and> \<not> py_isspace (hd t) \<and> \<not> py_isspace (last t) \<and> strip t = t"
    unfolding t using parse_tables_trimmed by blast
  have 3: "TABLES ?cfg = [] \<and> fst (main ?cfg w st) = SysExit 1"
    if "list_all (\<lambda>c. c = CHR '','' \<or> py_isspace c) ?env"
  proof -
    have "TABLES ?cfg = []" unfolding t using that by (rule parse_tables_blank)
    then show ?thesis by (simp add: main_def)
  qed
  have 4: "\<exists>new. trace (snd (main ?cfg w st)) = trace st @ new \<and>
                 list_all (names_listed_table ?cfg (TABLES ?cfg)) new"
    by (rule main_trace)
  show ?thesis unfolding Let_def using 1 2 3 4 by blast
qed

lemma sample_tables: "TABLES sample_config = [''users'', ''orders'']"
  by (simp add: sample_config_def load_config_def sample_env_def getenv_def parse_tables_def
      strip_def py_isspace_def)

theorem tables_are_trimmed_witness:
  "TABLES (load_config sample_env 2 ''20240101T000000Z'') = [''users'', ''orders''] \<and>
   strip ''users'' = ''users'' \<and> strip ''orders'' = ''orders'' \<and>
   list_all (\<lambda>c. c = CHR '','' \<or> py_isspace c) '' , ,'' \<and>
   TABLES (load_config (sample_env(''TABLES'' \<mapsto> '' , ,'')) 2 ''20240101T000000Z'') = [] \<and>
   fst (main (load_config (sample_env(''TABLES'' \<mapsto> '' , ,'')) 2 ''20240101T000000Z'')
          sample_world start) = SysExit 1"
proof -
  have b: "list_all (\<lambda>c. c = CHR '','' \<or> py_isspace c) '' , ,''"
    by (simp add: py_isspace_def)
  have g: "getenv (sample_env(''TABLES'' \<mapsto> '' , ,'')) ''TABLES'' '''' = '' , ,''"
    by (simp add: getenv_def)
  have s: "TABLES (load_config sample_env 2 ''20240101T000000Z'') = [''users'', ''orders'']"
    using sample_tables by (simp add: sample_config_def)
  note A = tables_are_trimmed [of sample_env 2 "''20240101T000000Z''" sample_world start,
      unfolded Let_def]
  note B = tables_are_trimmed [of "sample_env(''TABLES'' \<mapsto> '' , ,'')" 2 "''20240101T000000Z''"
      sample_world start, unfolded Let_def g]
  from A have "\<forall>t\<in>set (TABLES (load_config sample_env 2 ''20240101T000000Z'')).
                 t \<noteq> [] \<and> \<not> py_isspace (hd t) \<and> \<not> py_isspace (last t) \<and> strip t = t"
    by (elim conjE)
  then have u: "strip ''users'' = ''users'' \<and> strip ''orders'' = ''orders''"
    unfolding s by simp
  from B have "list_all (\<lambda>c. c = CHR '','' \<or> py_isspace c) '' , ,'' \<longrightarrow>
      TABLES (load_config (sample_env(''TABLES'' \<mapsto> '' , ,'')) 2 ''20240101T000000Z'') = [] \<and>
      fst (main (load_config (sample_env(''TABLES'' \<mapsto> '' , ,'')) 2 ''20240101T000000Z'')
             sample_world start) = SysExit 1"
    by (elim conjE)
  with b have e: "TABLES (load_config (sample_env(''TABLES'' \<mapsto> '' , ,'')) 2 ''20240101T000000Z'') = [] \<and>
      fst (main (load_config (sample_env(''TABLES'' \<mapsto> '' , ,'')) 2 ''20240101T000000Z'')
             sample_world start) = SysExit 1"
    by (rule rev_mp)
  from s u b e show ?thesis by (intro conjI) (erule conjunct1 conjunct2 | assumption)+
qed

end
